theory Spec2Isabelle
  imports Complex_Main "HOL-Library.Word" "HOL-Library.Sublist" "HOL-Library.AList"
begin

section \<open>JavaScript strings and arrays\<close>

text \<open>
  A JavaScript string is a sequence of UTF-16 code units: a list of 16-bit words.
  \<open>str\<close> embeds an ASCII literal of the source.
\<close>

type_synonym code_unit = "16 word"
type_synonym jstring = "code_unit list"

definition str :: "string \<Rightarrow> jstring" where
  "str s = map of_char s"

definition LF :: code_unit where
  "LF = 0x0A"

text \<open>
  The line terminators of ECMAScript (LF, CR, LS, PS), which \<^verbatim>\<open>.\<close> in a regular expression
  does not match, and its white space, which \<^verbatim>\<open>trim()\<close> strips from both ends.
\<close>

definition is_line_terminator :: "code_unit \<Rightarrow> bool" where
  "is_line_terminator c \<longleftrightarrow> c = 0x0A \<or> c = 0x0D \<or> c = 0x2028 \<or> c = 0x2029"

definition is_white_space :: "code_unit \<Rightarrow> bool" where
  "is_white_space c \<longleftrightarrow>
     c = 0x09 \<or> c = 0x0B \<or> c = 0x0C \<or> c = 0x20 \<or> c = 0xA0 \<or> c = 0x1680 \<or>
     (0x2000 \<le> c \<and> c \<le> 0x200A) \<or> c = 0x202F \<or> c = 0x205F \<or> c = 0x3000 \<or>
     c = 0xFEFF \<or> is_line_terminator c"

definition trim :: "jstring \<Rightarrow> jstring" where
  "trim s = rev (dropWhile is_white_space (rev (dropWhile is_white_space s)))"

text \<open>\<^verbatim>\<open>s.split(sep)\<close> for a one-unit separator: never empty, \<^verbatim>\<open>''.split('/')\<close> is \<^verbatim>\<open>['']\<close>.\<close>

fun js_split :: "'a \<Rightarrow> 'a list \<Rightarrow> 'a list list" where
  "js_split sep [] = [[]]"
| "js_split sep (c # cs) =
     (if c = sep then [] # js_split sep cs
      else (case js_split sep cs of [] \<Rightarrow> [[c]] | p # ps \<Rightarrow> (c # p) # ps))"

text \<open>\<^verbatim>\<open>xs.join(sep)\<close> for a one-unit separator.\<close>

fun js_join :: "'a \<Rightarrow> 'a list list \<Rightarrow> 'a list" where
  "js_join sep [] = []"
| "js_join sep [x] = x"
| "js_join sep (x # y # ys) = x @ sep # js_join sep (y # ys)"

text \<open>\<^verbatim>\<open>s.startsWith(p)\<close> and \<^verbatim>\<open>s.includes(p)\<close>.\<close>

definition startsWith :: "'a list \<Rightarrow> 'a list \<Rightarrow> bool" where
  "startsWith s p = (take (length p) s = p)"

fun js_includes :: "'a list \<Rightarrow> 'a list \<Rightarrow> bool" where
  "js_includes [] p = (p = [])"
| "js_includes (c # cs) p = (startsWith (c # cs) p \<or> js_includes cs p)"

text \<open>
  \<^verbatim>\<open>[...new Set(xs)]\<close>: a Set keeps the first occurrence of each element, in insertion
  order.
\<close>

definition set_add :: "'a list \<Rightarrow> 'a \<Rightarrow> 'a list" where
  "set_add seen x = (if x \<in> set seen then seen else seen @ [x])"

definition new_Set :: "'a list \<Rightarrow> 'a list" where
  "new_Set xs = foldl set_add [] xs"

section \<open>Diff truncation (both generators)\<close>

text \<open>
  \<^verbatim>\<open>truncateDiff(diff, maxLines = 50)\<close> is the same text in \<^verbatim>\<open>AICommitGenerator\<close> and in
  \<^verbatim>\<open>DashScopeGenerator\<close>. Every caller passes the diff only, so \<open>maxLines\<close> is 50.
\<close>

definition truncated_marker :: jstring where
  "truncated_marker = str ''... (truncated)''"

definition truncateDiff :: "jstring \<Rightarrow> nat \<Rightarrow> jstring" where
  "truncateDiff diff maxLines =
     (if diff = [] then []
      else let lines = js_split LF diff in
        if length lines \<le> maxLines then diff
        else js_join LF (take maxLines lines) @ LF # truncated_marker)"

section \<open>JavaScript values\<close>

text \<open>
  Configuration values come from a JSON file and are read with \<^verbatim>\<open>||\<close> and \<^verbatim>\<open>===\<close> only. A
  number is an IEEE double: the source does no arithmetic on configuration numbers, so a
  finite double is the rational it denotes (the two zeros are one value, both falsy).
  \<open>Object\<close> stands for any object or array: always truthy, and equal to no string.
\<close>

datatype number = NaN | PosInfinity | NegInfinity | Finite rat

datatype jsval = Undefined | Null | Boolean bool | Number number | String jstring | Object

fun truthy :: "jsval \<Rightarrow> bool" where
  "truthy Undefined = False"
| "truthy Null = False"
| "truthy (Boolean b) = b"
| "truthy (Number NaN) = False"
| "truthy (Number PosInfinity) = True"
| "truthy (Number NegInfinity) = True"
| "truthy (Number (Finite r)) = (r \<noteq> 0)"
| "truthy (String s) = (s \<noteq> [])"
| "truthy Object = True"

text \<open>\<^verbatim>\<open>a || b\<close>\<close>

definition js_or :: "jsval \<Rightarrow> jsval \<Rightarrow> jsval" where
  "js_or a b = (if truthy a then a else b)"

section \<open>Regular expressions\<close>

text \<open>
  The fragment of ECMAScript regular expressions that the source uses, without flags:
  literal code units, \<^verbatim>\<open>.\<close> (any code unit but a line terminator), alternation, sequence,
  \<^verbatim>\<open>?\<close> and \<^verbatim>\<open>+\<close>. There are no back-references or look-arounds, so \<^verbatim>\<open>test\<close> answers
  whether some match exists; the matcher decides that with derivatives.
\<close>

datatype regex =
    Never
  | Empty
  | Chr code_unit
  | Dot
  | Alt regex regex
  | Seq regex regex
  | Star regex

definition Lit :: "jstring \<Rightarrow> regex" where
  "Lit s = foldr (\<lambda>c r. Seq (Chr c) r) s Empty"

definition Plus :: "regex \<Rightarrow> regex" where
  "Plus r = Seq r (Star r)"

definition Opt :: "regex \<Rightarrow> regex" where
  "Opt r = Alt r Empty"

definition Alts :: "regex list \<Rightarrow> regex" where
  "Alts rs = foldr Alt rs Never"

fun nullable :: "regex \<Rightarrow> bool" where
  "nullable Never = False"
| "nullable Empty = True"
| "nullable (Chr c) = False"
| "nullable Dot = False"
| "nullable (Alt r s) = (nullable r \<or> nullable s)"
| "nullable (Seq r s) = (nullable r \<and> nullable s)"
| "nullable (Star r) = True"

fun deriv :: "code_unit \<Rightarrow> regex \<Rightarrow> regex" where
  "deriv c Never = Never"
| "deriv c Empty = Never"
| "deriv c (Chr d) = (if c = d then Empty else Never)"
| "deriv c Dot = (if is_line_terminator c then Never else Empty)"
| "deriv c (Alt r s) = Alt (deriv c r) (deriv c s)"
| "deriv c (Seq r s) =
     (if nullable r then Alt (Seq (deriv c r) s) (deriv c s) else Seq (deriv c r) s)"
| "deriv c (Star r) = Seq (deriv c r) (Star r)"

text \<open>
  \<^verbatim>\<open>/^r/.test(s)\<close>: the pattern is anchored at the start only, so it asks whether some
  prefix of \<open>s\<close> matches \<open>r\<close>.
\<close>

fun regex_test :: "regex \<Rightarrow> jstring \<Rightarrow> bool" where
  "regex_test r [] = nullable r"
| "regex_test r (c # cs) = (nullable r \<or> regex_test (deriv c r) cs)"

text \<open>
  The words a regular expression matches, as the language definition gives them. This
  is the reference the matcher is compared with.
\<close>

inductive_set star :: "'a list set \<Rightarrow> 'a list set" for A :: "'a list set" where
  star_Nil: "[] \<in> star A"
| star_app: "u \<in> A \<Longrightarrow> v \<in> star A \<Longrightarrow> u @ v \<in> star A"

fun lang :: "regex \<Rightarrow> jstring set" where
  "lang Never = {}"
| "lang Empty = {[]}"
| "lang (Chr c) = {[c]}"
| "lang Dot = {[c] | c. \<not> is_line_terminator c}"
| "lang (Alt r s) = lang r \<union> lang s"
| "lang (Seq r s) = {u @ v | u v. u \<in> lang r \<and> v \<in> lang s}"
| "lang (Star r) = star (lang r)"

section \<open>Message formatter (both generators)\<close>

record change_stats =
  additions :: nat
  deletions :: nat
  filesChanged :: nat

record analysis =
  type :: jstring
  scope :: jstring
  files :: "jstring list"
  stats :: change_stats

definition conventional_types :: "jstring list" where
  "conventional_types =
     map str [''feat'', ''fix'', ''docs'', ''style'', ''refactor'', ''test'', ''chore'']"

text \<open>\<^verbatim>\<open>/^(feat|fix|docs|style|refactor|test|chore)(\(.+\))?: .+/\<close>\<close>

definition conventionalPattern :: regex where
  "conventionalPattern =
     Seq (Alts (map Lit conventional_types))
    (Seq (Opt (Seq (Chr 0x28) (Seq (Plus Dot) (Chr 0x29))))
    (Seq (Lit (str '': '')) (Plus Dot)))"

definition isConventionalFormat :: "jstring \<Rightarrow> bool" where
  "isConventionalFormat message = regex_test conventionalPattern message"

text \<open>
  \<^verbatim>\<open>formatCommitMessage(message, analysis)\<close>. The two classes have the same body; the first
  argument is the style it reads: \<^verbatim>\<open>this.config.style\<close> in \<^verbatim>\<open>AICommitGenerator\<close>,
  \<^verbatim>\<open>this.options.style\<close> in \<^verbatim>\<open>DashScopeGenerator\<close>.
\<close>

definition formatCommitMessage :: "jsval \<Rightarrow> jstring \<Rightarrow> analysis \<Rightarrow> jstring" where
  "formatCommitMessage style_read message a =
     (if isConventionalFormat message then message
      else if style_read = String (str ''conventional'') then
        (let scope_part = (if scope a \<noteq> [] then str ''('' @ scope a @ str '')'' else [])
         in type a @ scope_part @ str '': '' @ message)
      else message)"

section \<open>Errors\<close>

text \<open>
  Every \<^verbatim>\<open>throw new Error(prefix + error.message)\<close> of the source is a constructor around
  the error it wraps. \<open>LibError\<close> is an error raised by a library call (simple-git, axios,
  the OpenAI client): its message, its \<^verbatim>\<open>code\<close> and, for an HTTP error of axios, its
  \<^verbatim>\<open>response\<close> as the pair of \<^verbatim>\<open>response.data.message\<close> and \<^verbatim>\<open>response.statusText\<close>.
\<close>

datatype error =
    LibError jstring jsval "(jsval \<times> jstring) option"
  | TypeError
  | InvalidResponse
  | QuotaExceeded
  | InvalidApiKey
  | OpenAIError error
  | DashScopeApiError jsval
  | GenerationFailed error
  | MultipleFailed error
  | StagedDiffFailed error
  | WorkingDiffFailed error
  | StatusFailed error
  | LogFailed error
  | DiffFailed error

fun code_of :: "error \<Rightarrow> jsval" where
  "code_of (LibError m c r) = c"
| "code_of e = Undefined"

fun response_of :: "error \<Rightarrow> (jsval \<times> jstring) option" where
  "response_of (LibError m c r) = r"
| "response_of e = None"

section \<open>Change inspector (GitAnalyzer)\<close>

text \<open>
  What simple-git reports. \<open>changes\<close> holds the fields that \<^verbatim>\<open>getChangedFiles\<close> copies,
  \<open>status_result\<close> adds \<^verbatim>\<open>status.files\<close>, which lists every entry of the status output
  (also untracked and renamed paths). One snapshot of the repository answers every call
  of one request.
\<close>

record file_status =
  path :: jstring
  index :: jstring
  working_dir :: jstring

record changes =
  staged :: "jstring list"
  modified :: "jstring list"
  created :: "jstring list"
  deleted :: "jstring list"
  renamed :: "(jstring \<times> jstring) list"

record status_result = changes +
  status_files :: "file_status list"

record commit =
  hash :: jstring
  message :: jstring
  date :: jstring

record git =
  git_status :: "error + status_result"
  git_diff_staged :: "error + jstring"
  git_diff :: "error + jstring"
  git_log :: "nat \<Rightarrow> error + commit list"

definition getStagedDiff :: "git \<Rightarrow> error + jstring" where
  "getStagedDiff g = (case git_diff_staged g of Inl e \<Rightarrow> Inl (StagedDiffFailed e) | Inr d \<Rightarrow> Inr d)"

definition getWorkingDiff :: "git \<Rightarrow> error + jstring" where
  "getWorkingDiff g = (case git_diff g of Inl e \<Rightarrow> Inl (WorkingDiffFailed e) | Inr d \<Rightarrow> Inr d)"

definition getChangedFiles :: "git \<Rightarrow> error + changes" where
  "getChangedFiles g =
     (case git_status g of Inl e \<Rightarrow> Inl (StatusFailed e) | Inr s \<Rightarrow> Inr (changes.truncate s))"

definition getRecentCommits :: "git \<Rightarrow> nat \<Rightarrow> error + commit list" where
  "getRecentCommits g n =
     (case git_log g n of
        Inl e \<Rightarrow> Inl (LogFailed e)
      | Inr cs \<Rightarrow> Inr (map (\<lambda>c. \<lparr>hash = hash c, message = message c, date = date c\<rparr>) cs))"

definition isGitRepo :: "git \<Rightarrow> bool" where
  "isGitRepo g = (case git_status g of Inl e \<Rightarrow> False | Inr s \<Rightarrow> True)"

definition hasChanges :: "git \<Rightarrow> bool" where
  "hasChanges g = (case git_status g of Inl e \<Rightarrow> False | Inr s \<Rightarrow> length (status_files s) > 0)"

definition getDiff :: "git \<Rightarrow> error + jstring" where
  "getDiff g =
     (case getStagedDiff g of
        Inl e \<Rightarrow> Inl (DiffFailed e)
      | Inr stagedDiff \<Rightarrow>
          if stagedDiff \<noteq> [] \<and> trim stagedDiff \<noteq> [] then Inr stagedDiff
          else (case getWorkingDiff g of Inl e \<Rightarrow> Inl (DiffFailed e) | Inr d \<Rightarrow> Inr d))"

section \<open>Change classifier (GitAnalyzer.analyzeChanges)\<close>

definition allChangedFiles :: "changes \<Rightarrow> jstring list" where
  "allChangedFiles c = staged c @ modified c @ created c @ deleted c"

text \<open>\<^verbatim>\<open>lines.filter(line => line.startsWith(p)).length\<close>, under the guard \<^verbatim>\<open>if (diff)\<close>.\<close>

definition count_lines :: "jstring \<Rightarrow> jstring \<Rightarrow> nat" where
  "count_lines p diff =
     (if diff \<noteq> [] then length (filter (\<lambda>line. startsWith line p) (js_split LF diff)) else 0)"

definition change_type :: "changes \<Rightarrow> jstring list \<Rightarrow> jstring" where
  "change_type c fs =
     (if length (created c) > 0 then str ''feat''
      else if length (deleted c) > 0 then str ''feat''
      else if list_ex (\<lambda>file. js_includes file (str ''test'')) fs then str ''test''
      else if list_ex (\<lambda>file. js_includes file (str ''doc'') \<or> js_includes file (str ''README'')) fs
        then str ''docs''
      else if list_ex (\<lambda>file. js_includes file (str ''config'') \<or>
                               js_includes file (str ''package.json'')) fs
        then str ''chore''
      else str ''feat'')"

text \<open>\<^verbatim>\<open>parts = file.split('/'); parts.length > 1 ? parts[0] : ''\<close>\<close>

definition first_segment :: "jstring \<Rightarrow> jstring" where
  "first_segment file = (case js_split 0x2F file of p # q # ps \<Rightarrow> p | _ \<Rightarrow> [])"

text \<open>
  \<^verbatim>\<open>scopeCounts\<close> is an object used as a dictionary: an association list in insertion
  order. \<^verbatim>\<open>scopeCounts[scope] = (scopeCounts[scope] || 0) + 1\<close> updates a key in place or
  appends a new one. The model reads own properties only: it covers first segments that
  are not names of \<^verbatim>\<open>Object.prototype\<close> (listed in \<open>object_prototype_keys\<close>), for which
  the read would find an inherited value instead of \<^verbatim>\<open>undefined\<close>.
\<close>

type_synonym counts = "(jstring \<times> nat) list"

definition object_prototype_keys :: "jstring list" where
  "object_prototype_keys =
     map str [''constructor'', ''__defineGetter__'', ''__defineSetter__'', ''hasOwnProperty'',
       ''__lookupGetter__'', ''__lookupSetter__'', ''isPrototypeOf'', ''propertyIsEnumerable'',
       ''toString'', ''valueOf'', ''__proto__'', ''toLocaleString'']"

definition tally :: "counts \<Rightarrow> jstring \<Rightarrow> counts" where
  "tally m s =
     (if s \<noteq> [] then
        AList.update s ((case map_of m s of None \<Rightarrow> 0 | Some n \<Rightarrow> n) + 1) m
      else m)"

definition scopeCounts :: "jstring list \<Rightarrow> counts" where
  "scopeCounts commonPaths = foldl tally [] commonPaths"

text \<open>
  \<^verbatim>\<open>Object.keys\<close> lists the keys that are array indices (canonical decimal numerals below
  \<open>2\<^sup>3\<^sup>2 - 1\<close>) first, in ascending numeric order, then the other keys in insertion order.
\<close>

definition is_digit :: "code_unit \<Rightarrow> bool" where
  "is_digit c \<longleftrightarrow> 0x30 \<le> c \<and> c \<le> 0x39"

definition digits_val :: "jstring \<Rightarrow> int" where
  "digits_val s = foldl (\<lambda>n c. 10 * n + uint (c - 0x30)) 0 s"

definition is_array_index :: "jstring \<Rightarrow> bool" where
  "is_array_index s \<longleftrightarrow>
     s \<noteq> [] \<and> list_all is_digit s \<and> (s = str ''0'' \<or> take 1 s \<noteq> str ''0'') \<and>
     digits_val s < 4294967295"

definition object_keys :: "counts \<Rightarrow> jstring list" where
  "object_keys m =
     (let ks = map fst m
      in sort_key digits_val (filter is_array_index ks) @ filter (\<lambda>k. \<not> is_array_index k) ks)"

text \<open>\<^verbatim>\<open>x > y\<close> on two property reads: a comparison with \<^verbatim>\<open>undefined\<close> is false.\<close>

fun js_gt :: "nat option \<Rightarrow> nat option \<Rightarrow> bool" where
  "js_gt (Some x) (Some y) = (x > y)"
| "js_gt x y = False"

text \<open>\<^verbatim>\<open>(a, b) => scopeCounts[a] > scopeCounts[b] ? a : b\<close>\<close>

definition pick :: "counts \<Rightarrow> jstring \<Rightarrow> jstring \<Rightarrow> jstring" where
  "pick m a b = (if js_gt (map_of m a) (map_of m b) then a else b)"

text \<open>\<^verbatim>\<open>reduce\<close> without an initial value starts from the first key; the source guards the
  empty case, where \<^verbatim>\<open>analysis.scope\<close> keeps its initial \<^verbatim>\<open>''\<close>.\<close>

definition change_scope :: "jstring list \<Rightarrow> jstring" where
  "change_scope fs =
     (let m = scopeCounts (map first_segment fs)
      in case object_keys m of [] \<Rightarrow> [] | k # ks \<Rightarrow> foldl (pick m) k ks)"

text \<open>The body of \<^verbatim>\<open>analyzeChanges\<close> once the status and the diff have been read.\<close>

definition analyze :: "changes \<Rightarrow> jstring \<Rightarrow> analysis" where
  "analyze c diff =
     (let fs = new_Set (allChangedFiles c)
      in \<lparr>type = change_type c fs,
          scope = change_scope fs,
          files = fs,
          stats = \<lparr>additions = count_lines (str ''+'') diff,
                   deletions = count_lines (str ''-'') diff,
                   filesChanged = length fs\<rparr>\<rparr>)"

text \<open>\<^verbatim>\<open>await this.getStagedDiff() || await this.getWorkingDiff()\<close>\<close>

definition analysis_diff :: "git \<Rightarrow> error + jstring" where
  "analysis_diff g =
     (case getStagedDiff g of
        Inl e \<Rightarrow> Inl e
      | Inr stagedDiff \<Rightarrow> if stagedDiff \<noteq> [] then Inr stagedDiff else getWorkingDiff g)"

definition analyzeChanges :: "git \<Rightarrow> error + analysis" where
  "analyzeChanges g =
     (case getChangedFiles g of
        Inl e \<Rightarrow> Inl e
      | Inr c \<Rightarrow> (case analysis_diff g of Inl e \<Rightarrow> Inl e | Inr diff \<Rightarrow> Inr (analyze c diff)))"

section \<open>Generator configuration\<close>

record options =
  model :: jsval
  language :: jsval
  style :: jsval
  maxTokens :: jsval
  temperature :: jsval

record config = options +
  aiProvider :: jsval
  openaiApiKey :: jsval
  dashscopeApiKey :: jsval

record env =
  DASHSCOPE_API_KEY :: jsval
  OPENAI_API_KEY :: jsval

text \<open>The literals \<^verbatim>\<open>100\<close> and \<^verbatim>\<open>0.3\<close>; the latter is the double nearest to three tenths.\<close>

definition default_maxTokens :: jsval where
  "default_maxTokens = Number (Finite 100)"

definition default_temperature :: jsval where
  "default_temperature = Number (Finite (5404319552844595 / 18014398509481984))"

record dashscope_generator =
  apiKey :: jsval
  generator_options :: options

text \<open>\<^verbatim>\<open>new DashScopeGenerator(apiKey, options)\<close>\<close>

definition DashScopeGenerator :: "env \<Rightarrow> jsval \<Rightarrow> options \<Rightarrow> dashscope_generator" where
  "DashScopeGenerator ev key opts =
     \<lparr>apiKey = js_or key (DASHSCOPE_API_KEY ev),
      generator_options =
        \<lparr>model = js_or (model opts) (String (str ''qwen-turbo'')),
         language = js_or (language opts) (String (str ''zh-CN'')),
         style = js_or (style opts) (String (str ''conventional'')),
         maxTokens = js_or (maxTokens opts) default_maxTokens,
         temperature = js_or (temperature opts) default_temperature\<rparr>\<rparr>"

record ai_generator =
  generator_config :: config
  generator :: "dashscope_generator option"
  openai :: "jsval option"

text \<open>
  \<^verbatim>\<open>new AICommitGenerator(config)\<close>, which runs \<^verbatim>\<open>setupGenerator()\<close>. Of the OpenAI client
  only the key it is given is kept.
\<close>

definition setupGenerator :: "env \<Rightarrow> config \<Rightarrow> ai_generator" where
  "setupGenerator ev cfg =
     (if aiProvider cfg = String (str ''dashscope'') then
        \<lparr>generator_config = cfg,
         generator = Some (DashScopeGenerator ev (dashscopeApiKey cfg)
           \<lparr>model = js_or (model cfg) (String (str ''qwen-turbo'')),
            language = js_or (language cfg) (String (str ''zh-CN'')),
            style = js_or (style cfg) (String (str ''conventional'')),
            maxTokens = js_or (maxTokens cfg) default_maxTokens,
            temperature = js_or (temperature cfg) default_temperature\<rparr>),
         openai = None\<rparr>
      else
        \<lparr>generator_config = cfg,
         generator = None,
         openai = Some (js_or (openaiApiKey cfg) (OPENAI_API_KEY ev))\<rparr>)"

section \<open>Requests and responses\<close>

text \<open>
  The sampling parameters of a request. The prompts are text that no operation reads
  back, and are left out. A backend answers the \<open>i\<close>-th call of a request with an error
  or with the choices of the response: \<open>None\<close> when the response has no choices array
  where the source looks for it, and a choice is \<open>None\<close> when its
  \<^verbatim>\<open>message.content\<close> cannot be read as a string.
\<close>

record request =
  request_model :: jsval
  max_tokens :: jsval
  request_temperature :: jsval

type_synonym response = "jstring option list option"

type_synonym backend = "request \<Rightarrow> nat \<Rightarrow> error + response"

definition dashscope_request :: "dashscope_generator \<Rightarrow> request" where
  "dashscope_request g =
     \<lparr>request_model = model (generator_options g),
      max_tokens = maxTokens (generator_options g),
      request_temperature = temperature (generator_options g)\<rparr>"

definition openai_request :: "config \<Rightarrow> request" where
  "openai_request cfg =
     \<lparr>request_model = js_or (model cfg) (String (str ''gpt-3.5-turbo'')),
      max_tokens = js_or (maxTokens cfg) default_maxTokens,
      request_temperature = js_or (temperature cfg) default_temperature\<rparr>"

text \<open>The request that a generator sends, whichever provider it was set up for.\<close>

definition generator_request :: "ai_generator \<Rightarrow> request option" where
  "generator_request gen =
     (if aiProvider (generator_config gen) = String (str ''dashscope'')
      then map_option dashscope_request (generator gen)
      else Some (openai_request (generator_config gen)))"

section \<open>Generation (DashScopeGenerator, AICommitGenerator)\<close>

text \<open>The \<^verbatim>\<open>catch\<close> clauses of the two \<^verbatim>\<open>generate\<close> methods.\<close>

definition dashscope_catch :: "error \<Rightarrow> error" where
  "dashscope_catch e =
     (case response_of e of
        Some (data_message, statusText) \<Rightarrow> DashScopeApiError (js_or data_message (String statusText))
      | None \<Rightarrow> GenerationFailed e)"

definition openai_catch :: "error \<Rightarrow> error" where
  "openai_catch e =
     (if code_of e = String (str ''insufficient_quota'') then QuotaExceeded
      else if code_of e = String (str ''invalid_api_key'') then InvalidApiKey
      else OpenAIError e)"

text \<open>
  The \<^verbatim>\<open>try\<close> block after the request has settled: the first choice's content, trimmed
  and formatted; errors thrown here are caught by the same \<^verbatim>\<open>catch\<close>.
\<close>

definition read_response :: "jsval \<Rightarrow> analysis \<Rightarrow> error + response \<Rightarrow> error + jstring" where
  "read_response style_read a settled =
     (case settled of
        Inl e \<Rightarrow> Inl e
      | Inr None \<Rightarrow> Inl InvalidResponse
      | Inr (Some []) \<Rightarrow> Inl InvalidResponse
      | Inr (Some (None # rest)) \<Rightarrow> Inl TypeError
      | Inr (Some (Some content # rest)) \<Rightarrow> Inr (formatCommitMessage style_read (trim content) a))"

definition DashScopeGenerator_generateCommitMessage ::
    "dashscope_generator \<Rightarrow> backend \<Rightarrow> nat \<Rightarrow> analysis \<Rightarrow> error + jstring" where
  "DashScopeGenerator_generateCommitMessage g b i a =
     (case read_response (style (generator_options g)) a (b (dashscope_request g) i) of
        Inl e \<Rightarrow> Inl (dashscope_catch e)
      | Inr m \<Rightarrow> Inr m)"

definition generateWithOpenAI :: "config \<Rightarrow> backend \<Rightarrow> nat \<Rightarrow> analysis \<Rightarrow> error + jstring" where
  "generateWithOpenAI cfg b i a =
     (case read_response (style cfg) a (b (openai_request cfg) i) of
        Inl e \<Rightarrow> Inl (openai_catch e)
      | Inr m \<Rightarrow> Inr m)"

definition AICommitGenerator_generateCommitMessage ::
    "ai_generator \<Rightarrow> backend \<Rightarrow> nat \<Rightarrow> analysis \<Rightarrow> error + jstring" where
  "AICommitGenerator_generateCommitMessage gen b i a =
     (if aiProvider (generator_config gen) = String (str ''dashscope'') then
        (case generator gen of
           None \<Rightarrow> Inl TypeError
         | Some g \<Rightarrow> DashScopeGenerator_generateCommitMessage g b i a)
      else generateWithOpenAI (generator_config gen) b i a)"

text \<open>
  \<^verbatim>\<open>Promise.all\<close>: the results in call order, or a rejection. Which rejection wins when
  several calls fail depends on the order in which they settle; the model reports the
  first in call order.
\<close>

fun promise_all :: "(error + 'a) list \<Rightarrow> error + 'a list" where
  "promise_all [] = Inr []"
| "promise_all (Inl e # ps) = Inl e"
| "promise_all (Inr x # ps) = (case promise_all ps of Inl e \<Rightarrow> Inl e | Inr xs \<Rightarrow> Inr (x # xs))"

text \<open>\<^verbatim>\<open>Array(count).fill().map(() => generate(...))\<close>, then \<^verbatim>\<open>[...new Set(results)]\<close>.\<close>

definition DashScopeGenerator_generateMultipleOptions ::
    "dashscope_generator \<Rightarrow> backend \<Rightarrow> analysis \<Rightarrow> nat \<Rightarrow> error + jstring list" where
  "DashScopeGenerator_generateMultipleOptions g b a count =
     (case promise_all (map (\<lambda>i. DashScopeGenerator_generateCommitMessage g b i a) [0..<count]) of
        Inl e \<Rightarrow> Inl (MultipleFailed e)
      | Inr results \<Rightarrow> Inr (new_Set results))"

definition AICommitGenerator_generateMultipleOptions ::
    "ai_generator \<Rightarrow> backend \<Rightarrow> analysis \<Rightarrow> nat \<Rightarrow> error + jstring list" where
  "AICommitGenerator_generateMultipleOptions gen b a count =
     (if aiProvider (generator_config gen) = String (str ''dashscope'') then
        (case generator gen of
           None \<Rightarrow> Inl TypeError
         | Some g \<Rightarrow> DashScopeGenerator_generateMultipleOptions g b a count)
      else
        (case promise_all (map (\<lambda>i. generateWithOpenAI (generator_config gen) b i a) [0..<count]) of
           Inl e \<Rightarrow> Inl (MultipleFailed e)
         | Inr results \<Rightarrow> Inr (new_Set results)))"

section \<open>Orchestrator (GitAutoCommit)\<close>

text \<open>
  \<^verbatim>\<open>aiGenerator\<close> is \<^verbatim>\<open>null\<close> until \<^verbatim>\<open>initializeAI\<close> has run. The console lines and spinner
  updates are kept as a trace; a silent instance prints nothing.
\<close>

record auto_commit =
  gitAnalyzer :: git
  aiGenerator :: "ai_generator option"
  silent :: bool

datatype console =
    NotARepo
  | NoChangesDetected
  | SpinnerStart
  | SpinnerText
  | SpinnerSucceed
  | Failed error




text \<open>\<^verbatim>\<open>generateMultipleOptions(count)\<close> prints whether silent or not and returns \<^verbatim>\<open>[]\<close>
  where the single-message operation returns \<^verbatim>\<open>null\<close>.\<close>

definition generateMultipleOptions_try ::
    "auto_commit \<Rightarrow> backend \<Rightarrow> nat \<Rightarrow> console list \<times> (error + jstring list)" where
  "generateMultipleOptions_try t b count =
     (let g = gitAnalyzer t in
      if \<not> isGitRepo g then ([NotARepo], Inr [])
      else if \<not> hasChanges g then ([NoChangesDetected], Inr [])
      else case getDiff g of
        Inl e \<Rightarrow> ([SpinnerStart], Inl e)
      | Inr diff \<Rightarrow>
      case analyzeChanges g of
        Inl e \<Rightarrow> ([SpinnerStart], Inl e)
      | Inr a \<Rightarrow>
      case getRecentCommits g 5 of
        Inl e \<Rightarrow> ([SpinnerStart], Inl e)
      | Inr recentCommits \<Rightarrow>
      case aiGenerator t of
        None \<Rightarrow> ([SpinnerStart, SpinnerText], Inl TypeError)
      | Some gen \<Rightarrow>
      case AICommitGenerator_generateMultipleOptions gen b a count of
        Inl e \<Rightarrow> ([SpinnerStart, SpinnerText], Inl e)
      | Inr opts \<Rightarrow> ([SpinnerStart, SpinnerText, SpinnerSucceed], Inr opts))"

definition GitAutoCommit_generateMultipleOptions ::
    "auto_commit \<Rightarrow> backend \<Rightarrow> nat \<Rightarrow> console list \<times> (error + jstring list)" where
  "GitAutoCommit_generateMultipleOptions t b count =
     (case generateMultipleOptions_try t b count of
        (out, Inl e) \<Rightarrow> (out @ [Failed e], Inr [])
      | (out, Inr r) \<Rightarrow> (out, Inr r))"

section \<open>Concrete inputs\<close>

text \<open>One modified file under \<^verbatim>\<open>src/\<close>, nothing staged, and its working diff.\<close>

definition example_lines :: "jstring list" where
  "example_lines =
     map str [''--- a/src/app.test.js'', ''+++ b/src/app.test.js'', ''+new'', ''-old'', '' same'']"

definition example_status :: status_result where
  "example_status =
     \<lparr>staged = [], modified = [str ''src/app.test.js''], created = [], deleted = [],
      renamed = [],
      status_files = [\<lparr>path = str ''src/app.test.js'', index = str '' '', working_dir = str ''M''\<rparr>]\<rparr>"

definition no_commits :: "nat \<Rightarrow> error + commit list" where
  "no_commits n = Inr []"

definition example_git :: git where
  "example_git =
     \<lparr>git_status = Inr example_status,
      git_diff_staged = Inr [],
      git_diff = Inr (js_join LF example_lines),
      git_log = no_commits\<rparr>"

definition example_analysis :: analysis where
  "example_analysis =
     \<lparr>type = str ''test'', scope = str ''src'', files = [str ''src/app.test.js''],
      stats = \<lparr>additions = 2, deletions = 2, filesChanged = 1\<rparr>\<rparr>"

text \<open>A repository whose only change is one untracked file: simple-git lists it in
  \<^verbatim>\<open>status.files\<close> (and in \<^verbatim>\<open>not_added\<close>), in none of the four lists that are read.\<close>

definition untracked_status :: status_result where
  "untracked_status =
     \<lparr>staged = [], modified = [], created = [], deleted = [], renamed = [],
      status_files = [\<lparr>path = str ''notes.txt'', index = str ''?'', working_dir = str ''?''\<rparr>]\<rparr>"

definition untracked_git :: git where
  "untracked_git =
     \<lparr>git_status = Inr untracked_status,
      git_diff_staged = Inr [],
      git_diff = Inr [],
      git_log = no_commits\<rparr>"

definition untracked_analysis :: analysis where
  "untracked_analysis =
     \<lparr>type = str ''feat'', scope = [], files = [],
      stats = \<lparr>additions = 0, deletions = 0, filesChanged = 0\<rparr>\<rparr>"

text \<open>Two configurations with a zero temperature and a zero token budget, one for each
  provider.\<close>

definition zero_config :: "jsval \<Rightarrow> config" where
  "zero_config provider =
     \<lparr>model = Undefined, language = String (str ''en''), style = String (str ''conventional''),
      maxTokens = Number (Finite 0), temperature = Number (Finite 0),
      aiProvider = provider, openaiApiKey = String (str ''sk-test''),
      dashscopeApiKey = String (str ''sk-test'')\<rparr>"

definition no_env :: env where
  "no_env = \<lparr>DASHSCOPE_API_KEY = Undefined, OPENAI_API_KEY = Undefined\<rparr>"

text \<open>Mocked backends: the \<open>i\<close>-th call is answered with a one-choice response, or fails.\<close>

definition reply :: "jstring \<Rightarrow> error + response" where
  "reply content = Inr (Some [Some content])"

definition distinct_replies :: backend where
  "distinct_replies r i =
     (if i = 0 then reply (str ''add x'') else if i = 1 then reply (str ''add y'')
      else reply (str ''add z''))"

definition same_reply :: backend where
  "same_reply r i = reply (str ''add x'')"

definition collapsing_replies :: backend where
  "collapsing_replies r i =
     (if i = 0 then reply (str ''add x'') else if i = 1 then reply (str '' add x'')
      else reply (str ''feat: add x''))"

definition failing_second :: backend where
  "failing_second r i =
     (if i = 1 then Inl (LibError (str ''socket hang up'') Undefined None)
      else reply (str ''add x''))"



text \<open>
  The scope as the specification words it, for comparison with \<open>change_scope\<close>: the
  first segment of every path that contains a separator is a candidate; the most frequent
  candidate wins, and among equally frequent ones the first encountered.
\<close>

definition claimed_scope :: "jstring list \<Rightarrow> jstring" where
  "claimed_scope fs =
     (let candidates = map first_segment (filter (\<lambda>f. 0x2F \<in> set f) fs)
      in case new_Set candidates of
           [] \<Rightarrow> []
         | k # ks \<Rightarrow>
             foldl (\<lambda>best s. if count_list candidates s > count_list candidates best
                              then s else best) k ks)"

text \<open>Two modified files in two directories; two in numbered directories.\<close>

definition two_dirs :: changes where
  "two_dirs =
     \<lparr>staged = [], modified = [str ''api/x.js'', str ''web/y.js''], created = [], deleted = [],
      renamed = []\<rparr>"

definition numbered_dirs :: changes where
  "numbered_dirs =
     \<lparr>staged = [], modified = [str ''2/x.js'', str ''1/y.js''], created = [], deleted = [],
      renamed = []\<rparr>"

section \<open>Facts about split and join\<close>

lemma js_split_not_Nil: "js_split sep xs \<noteq> []"
  by (induction xs) (auto split: list.splits)

lemma js_split_no_sep: "l \<in> set (js_split sep xs) \<Longrightarrow> sep \<notin> set l"
proof (induction xs arbitrary: l)
  case Nil
  then show ?case by simp
next
  case (Cons c cs)
  show ?case
  proof (cases "c = sep")
    case True
    with Cons show ?thesis by auto
  next
    case False
    obtain p ps where ps: "js_split sep cs = p # ps"
      using js_split_not_Nil [of sep cs] by (cases "js_split sep cs") auto
    with Cons False show ?thesis by auto
  qed
qed

lemma js_split_line_then_sep:
  "sep \<notin> set l \<Longrightarrow> js_split sep (l @ sep # rest) = l # js_split sep rest"
  by (induction l) auto

lemma js_split_single: "sep \<notin> set l \<Longrightarrow> js_split sep l = [l]"
  by (induction l) auto

lemma js_split_join:
  "ls \<noteq> [] \<Longrightarrow> \<forall>l \<in> set ls. sep \<notin> set l \<Longrightarrow> js_split sep (js_join sep ls) = ls"
proof (induction sep ls rule: js_join.induct)
  case (1 sep)
  then show ?case by simp
next
  case (2 sep x)
  then show ?case by (simp add: js_split_single)
next
  case (3 sep x y ys)
  then show ?case by (simp add: js_split_line_then_sep)
qed

lemma js_join_snoc:
  "ls \<noteq> [] \<Longrightarrow> js_join sep (ls @ [l]) = js_join sep ls @ sep # l"
  by (induction sep ls rule: js_join.induct) auto

lemma str_no_LF: "LF \<notin> set truncated_marker"
  by (simp add: truncated_marker_def str_def LF_def)

lemma truncateDiff_long:
  assumes "maxLines < length (js_split LF d)" and "0 < maxLines"
  shows "js_split LF (truncateDiff d maxLines) = take maxLines (js_split LF d) @ [truncated_marker]"
proof -
  let ?ls = "take maxLines (js_split LF d)"
  have ne: "?ls \<noteq> []"
    using assms by (cases "js_split LF d") auto
  have nosep: "\<forall>l \<in> set (?ls @ [truncated_marker]). LF \<notin> set l"
    using js_split_no_sep [of _ LF d] str_no_LF by (auto dest: in_set_takeD)
  have d: "d \<noteq> []"
    using assms by auto
  have "truncateDiff d maxLines = js_join LF (?ls @ [truncated_marker])"
    using assms d by (simp add: truncateDiff_def Let_def js_join_snoc [OF ne])
  then show ?thesis
    using js_split_join [of "?ls @ [truncated_marker]" LF] nosep by simp
qed

text \<open>
  C5. A diff of at most 50 lines is returned as it is. A diff of more than 50 lines comes
  back as its first 50 lines followed by the marker line: exactly 51 lines, the 51st being
  \<^verbatim>\<open>... (truncated)\<close>. Lines are what \<^verbatim>\<open>split('\n')\<close> yields.
\<close>

theorem truncateDiff_spec:
  "(length (js_split LF d) \<le> 50 \<longrightarrow> truncateDiff d 50 = d) \<and>
   (50 < length (js_split LF d) \<longrightarrow>
      length (js_split LF (truncateDiff d 50)) = 51 \<and>
      js_split LF (truncateDiff d 50) ! 50 = str ''... (truncated)'' \<and>
      take 50 (js_split LF (truncateDiff d 50)) = take 50 (js_split LF d))"
proof (intro conjI impI)
  assume "length (js_split LF d) \<le> 50"
  then show "truncateDiff d 50 = d"
    by (simp add: truncateDiff_def Let_def)
next
  assume long: "50 < length (js_split LF d)"
  then have eq: "js_split LF (truncateDiff d 50) = take 50 (js_split LF d) @ [truncated_marker]"
    by (simp add: truncateDiff_long)
  show "length (js_split LF (truncateDiff d 50)) = 51"
    using long by (simp add: eq)
  show "js_split LF (truncateDiff d 50) ! 50 = str ''... (truncated)''"
    using long by (simp add: eq nth_append truncated_marker_def)
  show "take 50 (js_split LF (truncateDiff d 50)) = take 50 (js_split LF d)"
    using long by (simp add: eq)
qed

theorem truncateDiff_spec_witness:
  "length (js_split LF (str ''+a'' @ LF # str ''-b'')) \<le> 50 \<and>
   truncateDiff (str ''+a'' @ LF # str ''-b'') 50 = str ''+a'' @ LF # str ''-b'' \<and>
   50 < length (js_split LF (replicate 60 LF)) \<and>
   length (js_split LF (truncateDiff (replicate 60 LF) 50)) = 51 \<and>
   js_split LF (truncateDiff (replicate 60 LF) 50) ! 50 = str ''... (truncated)''"
proof -
  have short: "length (js_split LF (str ''+a'' @ LF # str ''-b'')) \<le> 50"
    by (simp add: str_def LF_def)
  have long: "50 < length (js_split LF (replicate 60 LF))"
    by code_simp
  show ?thesis
    using short long truncateDiff_spec [of "str ''+a'' @ LF # str ''-b''"]
      truncateDiff_spec [of "replicate 60 LF"]
    by blast
qed

section \<open>Change statistics\<close>

lemma startsWith_single: "startsWith l [c] \<longleftrightarrow> (\<exists>r. l = c # r)"
  by (cases l) (auto simp: startsWith_def)

lemma js_join_Nil_iff: "ls \<noteq> [] \<Longrightarrow> js_join sep ls = [] \<longleftrightarrow> ls = [[]]"
  by (induction sep ls rule: js_join.induct) auto

lemma count_lines_join:
  assumes "ls \<noteq> []" and "\<forall>l \<in> set ls. LF \<notin> set l"
  shows "count_lines [c] (js_join LF ls) = length (filter (\<lambda>l. \<exists>r. l = c # r) ls)"
proof (cases "js_join LF ls = []")
  case True
  then have "ls = [[]]" using assms(1) by (simp add: js_join_Nil_iff)
  then show ?thesis by (simp add: count_lines_def)
next
  case False
  then show ?thesis
    using assms by (simp add: count_lines_def js_split_join startsWith_single)
qed

lemma analyzeChanges_analyze:
  "analyzeChanges g = Inr a \<Longrightarrow> analysis_diff g = Inr d \<Longrightarrow>
   \<exists>s. git_status g = Inr s \<and> a = analyze (changes.truncate s) d"
  by (auto simp: analyzeChanges_def getChangedFiles_def split: sum.splits)

text \<open>
  C6. When the diff that \<^verbatim>\<open>analyzeChanges\<close> reads (the staged diff, or the working diff
  when the staged one is empty) is the lines \<open>ls\<close> joined by newlines, \<open>additions\<close> is the
  number of lines of \<open>ls\<close> that start with \<^verbatim>\<open>+\<close> and \<open>deletions\<close> the number that start
  with \<^verbatim>\<open>-\<close>. No line is excluded, so the \<^verbatim>\<open>+++\<close> and \<^verbatim>\<open>---\<close> headers count.
\<close>

theorem change_stats_count:
  assumes "ls \<noteq> []" and "\<forall>l \<in> set ls. LF \<notin> set l"
    and "analysis_diff g = Inr (js_join LF ls)"
    and "analyzeChanges g = Inr a"
  shows "additions (stats a) = length (filter (\<lambda>l. \<exists>r. l = 0x2B # r) ls) \<and>
         deletions (stats a) = length (filter (\<lambda>l. \<exists>r. l = 0x2D # r) ls)"
proof -
  obtain s :: status_result where a: "a = analyze (changes.truncate s) (js_join LF ls)"
    using analyzeChanges_analyze [OF assms(4) assms(3)] by blast
  have "str ''+'' = [0x2B]" and "str ''-'' = [0x2D]"
    by (simp_all add: str_def)
  then show ?thesis
    using count_lines_join [OF assms(1,2)] by (simp add: a analyze_def Let_def)
qed

theorem change_stats_count_witness:
  "analysis_diff example_git = Inr (js_join LF example_lines) \<and>
   analyzeChanges example_git = Inr example_analysis \<and>
   additions (stats example_analysis) = 2 \<and> deletions (stats example_analysis) = 2"
proof -
  have ne: "example_lines \<noteq> []"
    by (simp add: example_lines_def)
  have nolf: "\<forall>l \<in> set example_lines. LF \<notin> set l"
    by code_simp
  have d: "analysis_diff example_git = Inr (js_join LF example_lines)"
    by (simp add: analysis_diff_def example_git_def getStagedDiff_def getWorkingDiff_def)
  have a: "analyzeChanges example_git = Inr example_analysis"
    by code_simp
  have "length (filter (\<lambda>l. \<exists>r. l = 0x2B # r) example_lines) = 2"
    and "length (filter (\<lambda>l. \<exists>r. l = 0x2D # r) example_lines) = 2"
    by (simp_all add: example_lines_def str_def)
  then show ?thesis
    using change_stats_count [OF ne nolf d a] d a by simp
qed

section \<open>The change set\<close>

lemma set_foldl_set_add: "set (foldl set_add acc xs) = set acc \<union> set xs"
  by (induction xs arbitrary: acc) (auto simp: set_add_def)

lemma distinct_foldl_set_add: "distinct acc \<Longrightarrow> distinct (foldl set_add acc xs)"
  by (induction xs arbitrary: acc) (auto simp: set_add_def)

lemma set_new_Set: "set (new_Set xs) = set xs"
  by (simp add: new_Set_def set_foldl_set_add)

lemma distinct_new_Set: "distinct (new_Set xs)"
  by (simp add: new_Set_def distinct_foldl_set_add)

lemma new_Set_Nil_iff: "new_Set xs = [] \<longleftrightarrow> xs = []"
  using set_new_Set [of xs] by (metis set_empty)

lemma analyzeChanges_status:
  "analyzeChanges g = Inr a \<Longrightarrow> git_status g = Inr s \<Longrightarrow>
   \<exists>d. a = analyze (changes.truncate s) d"
  by (auto simp: analyzeChanges_def getChangedFiles_def split: sum.splits)

lemma files_analyze: "files (analyze c d) = new_Set (staged c @ modified c @ created c @ deleted c)"
  by (simp add: analyze_def Let_def allChangedFiles_def)

text \<open>
  C4, as amended. The change set is the duplicate-free union of the staged, modified,
  created and deleted lists, so it is non-empty exactly when one of the four is. When
  \<^verbatim>\<open>hasChanges\<close> is true and one of the four lists has an entry, the change set is
  non-empty.
\<close>

theorem changeset_nonempty:
  assumes "hasChanges g" and "git_status g = Inr s" and "analyzeChanges g = Inr a"
  shows "(staged s \<noteq> [] \<or> modified s \<noteq> [] \<or> created s \<noteq> [] \<or> deleted s \<noteq> []
            \<longleftrightarrow> files a \<noteq> []) \<and>
         distinct (files a) \<and>
         set (files a) = set (staged s) \<union> set (modified s) \<union> set (created s) \<union> set (deleted s)"
proof -
  obtain d where a: "a = analyze (changes.truncate s) d"
    using analyzeChanges_status [OF assms(3) assms(2)] by blast
  have fs: "files a = new_Set (staged s @ modified s @ created s @ deleted s)"
    by (simp add: a files_analyze changes.truncate_def)
  show ?thesis
    by (auto simp: fs new_Set_Nil_iff distinct_new_Set set_new_Set)
qed

theorem changeset_nonempty_witness:
  "hasChanges example_git \<and> modified example_status \<noteq> [] \<and> files example_analysis \<noteq> []"
proof -
  have h: "hasChanges example_git"
    by code_simp
  have s: "git_status example_git = Inr example_status"
    by (simp add: example_git_def)
  have a: "analyzeChanges example_git = Inr example_analysis"
    by code_simp
  have m: "modified example_status \<noteq> []"
    by (simp add: example_status_def)
  show ?thesis
    using changeset_nonempty [OF h s a] h m by blast
qed

text \<open>
  C4 as stated fails: with one untracked file \<^verbatim>\<open>hasChanges\<close> is true and the change set
  is empty.
\<close>

theorem changeset_empty_counterexample:
  "hasChanges untracked_git \<and>
   analyzeChanges untracked_git = Inr untracked_analysis \<and>
   files untracked_analysis = []"
proof -
  have "hasChanges untracked_git"
    by code_simp
  moreover have "analyzeChanges untracked_git = Inr untracked_analysis"
    by code_simp
  moreover have "files untracked_analysis = []"
    by (simp add: untracked_analysis_def)
  ultimately show ?thesis by blast
qed

section \<open>Type inference\<close>

lemma startsWith_prefix: "startsWith s p \<longleftrightarrow> prefix p s"
  unfolding startsWith_def prefix_def
  by (metis append_eq_conv_conj)

lemma js_includes_sublist: "js_includes s p \<longleftrightarrow> sublist p s"
  by (induction s) (auto simp: startsWith_prefix sublist_Cons_right)

lemma list_ex_new_Set: "list_ex P (new_Set xs) \<longleftrightarrow> (\<exists>x \<in> set xs. P x)"
  by (simp add: list_ex_iff set_new_Set)

text \<open>
  C7. The change type follows the first rule that applies: a created file gives
  \<^verbatim>\<open>feat\<close>; else a deleted file gives \<^verbatim>\<open>feat\<close>; else a changed path that contains
  \<^verbatim>\<open>test\<close> gives \<^verbatim>\<open>test\<close>; else one that contains \<^verbatim>\<open>doc\<close> or \<^verbatim>\<open>README\<close> gives
  \<^verbatim>\<open>docs\<close>; else one that contains \<^verbatim>\<open>config\<close> or \<^verbatim>\<open>package.json\<close> gives \<^verbatim>\<open>chore\<close>;
  else \<^verbatim>\<open>feat\<close>. The changed paths are those of the four status lists.
\<close>

theorem change_type_priority:
  assumes "analyzeChanges g = Inr a" and "git_status g = Inr s"
    and "fs = set (staged s) \<union> set (modified s) \<union> set (created s) \<union> set (deleted s)"
  shows "type a =
     (if created s \<noteq> [] then str ''feat''
      else if deleted s \<noteq> [] then str ''feat''
      else if \<exists>f \<in> fs. sublist (str ''test'') f then str ''test''
      else if \<exists>f \<in> fs. sublist (str ''doc'') f \<or> sublist (str ''README'') f then str ''docs''
      else if \<exists>f \<in> fs. sublist (str ''config'') f \<or> sublist (str ''package.json'') f
        then str ''chore''
      else str ''feat'')"
proof -
  obtain d where a: "a = analyze (changes.truncate s) d"
    using analyzeChanges_status [OF assms(1) assms(2)] by blast
  have fs: "fs = set (allChangedFiles (changes.truncate s))"
    by (auto simp: assms(3) allChangedFiles_def changes.truncate_def)
  have ty: "type a = change_type (changes.truncate s) (new_Set (allChangedFiles (changes.truncate s)))"
    by (simp add: a analyze_def Let_def)
  have c: "created (changes.truncate s) = created s" "deleted (changes.truncate s) = deleted s"
    by (simp_all add: changes.truncate_def)
  show ?thesis
    by (simp add: ty change_type_def list_ex_new_Set js_includes_sublist fs c)
qed

theorem change_type_priority_witness:
  "created example_status = [] \<and> deleted example_status = [] \<and>
   sublist (str ''test'') (str ''src/app.test.js'') \<and>
   type example_analysis = str ''test''"
proof -
  have a: "analyzeChanges example_git = Inr example_analysis"
    by code_simp
  have s: "git_status example_git = Inr example_status"
    by (simp add: example_git_def)
  have t: "sublist (str ''test'') (str ''src/app.test.js'')"
    unfolding js_includes_sublist [symmetric] by code_simp
  have fs: "set (staged example_status) \<union> set (modified example_status) \<union>
      set (created example_status) \<union> set (deleted example_status) = {str ''src/app.test.js''}"
    by (simp add: example_status_def)
  show ?thesis
    using change_type_priority [OF a s fs [symmetric]] t
    by (simp add: example_status_def)
qed

section \<open>Defaults of the sampling parameters\<close>

lemma truthy_defaults: "truthy default_temperature" "truthy default_maxTokens"
  by (simp_all add: default_temperature_def default_maxTokens_def)

lemma js_or_falsy: "\<not> truthy a \<Longrightarrow> js_or a b = b"
  by (simp add: js_or_def)

lemma js_or_idem: "truthy b \<Longrightarrow> js_or (js_or a b) b = js_or a b"
  by (simp add: js_or_def)

lemma js_or_not_zero: "truthy b \<Longrightarrow> js_or a b \<noteq> Number (Finite 0)"
  by (auto simp: js_or_def)

lemma generator_request_setup:
  "generator_request (setupGenerator ev cfg) =
     Some \<lparr>request_model =
             (if aiProvider cfg = String (str ''dashscope'')
              then js_or (model cfg) (String (str ''qwen-turbo''))
              else js_or (model cfg) (String (str ''gpt-3.5-turbo''))),
           max_tokens = js_or (maxTokens cfg) default_maxTokens,
           request_temperature = js_or (temperature cfg) default_temperature\<rparr>"
proof -
  have "js_or (js_or (model cfg) (String (str ''qwen-turbo''))) (String (str ''qwen-turbo'')) =
      js_or (model cfg) (String (str ''qwen-turbo''))"
    by (rule js_or_idem) (simp add: str_def)
  then show ?thesis
    by (simp add: generator_request_def setupGenerator_def DashScopeGenerator_def
        dashscope_request_def openai_request_def js_or_idem truthy_defaults)
qed

text \<open>
  C10. A falsy temperature or token budget (zero in particular) never reaches the
  provider. A \<^verbatim>\<open>DashScopeGenerator\<close> is constructed with the defaults \<open>0.3\<close> and \<open>100\<close> in
  their place, and the request that a generator set up from a configuration sends, to
  either provider, carries the defaults; its temperature and token budget are never zero.
\<close>

theorem falsy_numeric_defaults:
  "(\<not> truthy (temperature opts) \<longrightarrow>
      temperature (generator_options (DashScopeGenerator ev key opts)) = default_temperature) \<and>
   (\<not> truthy (maxTokens opts) \<longrightarrow>
      maxTokens (generator_options (DashScopeGenerator ev key opts)) = default_maxTokens) \<and>
   (\<exists>r. generator_request (setupGenerator ev cfg) = Some r \<and>
      (\<not> truthy (temperature cfg) \<longrightarrow> request_temperature r = default_temperature) \<and>
      (\<not> truthy (maxTokens cfg) \<longrightarrow> max_tokens r = default_maxTokens) \<and>
      request_temperature r \<noteq> Number (Finite 0) \<and>
      max_tokens r \<noteq> Number (Finite 0))"
proof (intro conjI)
  show "\<not> truthy (temperature opts) \<longrightarrow>
      temperature (generator_options (DashScopeGenerator ev key opts)) = default_temperature"
    by (simp add: DashScopeGenerator_def js_or_falsy)
  show "\<not> truthy (maxTokens opts) \<longrightarrow>
      maxTokens (generator_options (DashScopeGenerator ev key opts)) = default_maxTokens"
    by (simp add: DashScopeGenerator_def js_or_falsy)
  show "\<exists>r. generator_request (setupGenerator ev cfg) = Some r \<and>
      (\<not> truthy (temperature cfg) \<longrightarrow> request_temperature r = default_temperature) \<and>
      (\<not> truthy (maxTokens cfg) \<longrightarrow> max_tokens r = default_maxTokens) \<and>
      request_temperature r \<noteq> Number (Finite 0) \<and>
      max_tokens r \<noteq> Number (Finite 0)"
    by (simp add: generator_request_setup js_or_falsy js_or_not_zero truthy_defaults)
qed

theorem falsy_numeric_defaults_witness:
  "temperature (generator_options (DashScopeGenerator no_env Undefined
      (options.truncate (zero_config (String (str ''dashscope'')))))) = default_temperature \<and>
   maxTokens (generator_options (DashScopeGenerator no_env Undefined
      (options.truncate (zero_config (String (str ''dashscope'')))))) = default_maxTokens \<and>
   generator_request (setupGenerator no_env (zero_config (String (str ''openai'')))) =
     Some \<lparr>request_model = String (str ''gpt-3.5-turbo''), max_tokens = default_maxTokens,
           request_temperature = default_temperature\<rparr>"
proof -
  let ?d = "zero_config (String (str ''dashscope''))"
  let ?o = "zero_config (String (str ''openai''))"
  have f: "\<not> truthy (temperature (options.truncate ?d))" "\<not> truthy (maxTokens (options.truncate ?d))"
    "\<not> truthy (temperature ?o)" "\<not> truthy (maxTokens ?o)"
    by (simp_all add: zero_config_def options.truncate_def)
  have m: "request_model (the (generator_request (setupGenerator no_env ?o))) =
      String (str ''gpt-3.5-turbo'')"
    by (simp add: generator_request_setup zero_config_def js_or_def str_def)
  from falsy_numeric_defaults [where opts = "options.truncate ?d" and ev = no_env
      and key = Undefined and cfg = ?o] f
  obtain r where r: "generator_request (setupGenerator no_env ?o) = Some r"
    "request_temperature r = default_temperature" "max_tokens r = default_maxTokens"
    and ds: "temperature (generator_options (DashScopeGenerator no_env Undefined
      (options.truncate ?d))) = default_temperature"
     "maxTokens (generator_options (DashScopeGenerator no_env Undefined
      (options.truncate ?d))) = default_maxTokens"
    by blast
  have "r = \<lparr>request_model = String (str ''gpt-3.5-turbo''), max_tokens = default_maxTokens,
           request_temperature = default_temperature\<rparr>"
    using r m by (cases r) simp
  then show ?thesis
    using r(1) ds by simp
qed

section \<open>The matcher decides the language\<close>

lemma nullable_lang: "nullable r \<longleftrightarrow> [] \<in> lang r"
  by (induction r) (auto intro: star.star_Nil)

lemma star_Cons_split:
  assumes "x \<in> star A" and "x = c # w"
  shows "\<exists>u v. w = u @ v \<and> c # u \<in> A \<and> v \<in> star A"
  using assms
proof (induction arbitrary: w rule: star.induct)
  case star_Nil
  then show ?case by simp
next
  case (star_app u v)
  show ?case
  proof (cases u)
    case Nil
    with star_app show ?thesis by simp
  next
    case (Cons d u')
    with star_app.prems have "d = c" and "w = u' @ v" by simp_all
    with star_app.hyps(1,2) Cons show ?thesis by blast
  qed
qed

lemma star_Cons_iff:
  "c # w \<in> star A \<longleftrightarrow> (\<exists>u v. w = u @ v \<and> c # u \<in> A \<and> v \<in> star A)"
proof
  assume "c # w \<in> star A"
  then show "\<exists>u v. w = u @ v \<and> c # u \<in> A \<and> v \<in> star A"
    by (rule star_Cons_split) simp
next
  assume "\<exists>u v. w = u @ v \<and> c # u \<in> A \<and> v \<in> star A"
  then obtain u v where "w = u @ v" "c # u \<in> A" "v \<in> star A" by blast
  then show "c # w \<in> star A"
    using star.star_app [of "c # u" A v] by simp
qed

lemma lang_deriv: "w \<in> lang (deriv c r) \<longleftrightarrow> c # w \<in> lang r"
proof (induction r arbitrary: w)
  case (Seq r s)
  have "c # w \<in> lang (Seq r s) \<longleftrightarrow>
      ([] \<in> lang r \<and> c # w \<in> lang s) \<or> (\<exists>u v. w = u @ v \<and> c # u \<in> lang r \<and> v \<in> lang s)"
    by (auto simp: Cons_eq_append_conv)
  with Seq show ?case
    by (auto simp: nullable_lang)
next
  case (Star r)
  then show ?case
    by (auto simp: star_Cons_iff)
qed auto

lemma regex_test_lang: "regex_test r s \<longleftrightarrow> (\<exists>p q. s = p @ q \<and> p \<in> lang r)"
proof (induction s arbitrary: r)
  case Nil
  then show ?case by (simp add: nullable_lang)
next
  case (Cons c cs)
  have "(\<exists>p q. c # cs = p @ q \<and> p \<in> lang r) \<longleftrightarrow>
      [] \<in> lang r \<or> (\<exists>p q. cs = p @ q \<and> c # p \<in> lang r)"
    by (auto simp: Cons_eq_append_conv)
  with Cons show ?case
    by (simp add: nullable_lang lang_deriv)
qed

lemma lang_Lit: "lang (Lit s) = {s}"
  by (induction s) (auto simp: Lit_def)

lemma lang_Alts: "lang (Alts rs) = (\<Union>r \<in> set rs. lang r)"
  by (induction rs) (auto simp: Alts_def)

lemma lang_Opt: "lang (Opt r) = insert [] (lang r)"
  by (auto simp: Opt_def)

lemma lang_SeqI: "u \<in> lang r \<Longrightarrow> v \<in> lang s \<Longrightarrow> u @ v \<in> lang (Seq r s)"
  by auto

lemma star_Dot:
  "(\<forall>c \<in> set w. \<not> is_line_terminator c) \<Longrightarrow> w \<in> star {[c] |c. \<not> is_line_terminator c}"
proof (induction w)
  case Nil
  then show ?case by (simp add: star.star_Nil)
next
  case (Cons c w)
  then show ?case
    using star.star_app [of "[c]" "{[c] |c. \<not> is_line_terminator c}" w] by auto
qed

lemma lang_Plus_Dot:
  "w \<noteq> [] \<Longrightarrow> \<forall>c \<in> set w. \<not> is_line_terminator c \<Longrightarrow> w \<in> lang (Plus Dot)"
proof (cases w)
  case Nil
  assume "w \<noteq> []"
  with Nil show ?thesis by simp
next
  case (Cons c w')
  assume ok: "\<forall>c \<in> set w. \<not> is_line_terminator c"
  have "[c] \<in> lang Dot" and "w' \<in> lang (Star Dot)"
    using ok Cons by (simp_all add: star_Dot)
  then have "[c] @ w' \<in> lang (Seq Dot (Star Dot))"
    by (rule lang_SeqI)
  then show ?thesis
    by (simp add: Plus_def Cons)
qed

text \<open>Every text of the conventional shape starts with a word of the pattern.\<close>

lemma conventional_shape_lang:
  assumes t: "t \<in> set conventional_types"
    and sc: "sc = [] \<or> (\<exists>s. sc = 0x28 # s @ [0x29] \<and> s \<noteq> [] \<and> (\<forall>c \<in> set s. \<not> is_line_terminator c))"
    and d: "\<not> is_line_terminator d"
  shows "t @ sc @ str '': '' @ [d] \<in> lang conventionalPattern"
proof -
  have 1: "t \<in> lang (Alts (map Lit conventional_types))"
    using t by (auto simp: lang_Alts lang_Lit)
  have 2: "sc \<in> lang (Opt (Seq (Chr 0x28) (Seq (Plus Dot) (Chr 0x29))))"
  proof (cases "sc = []")
    case True
    then show ?thesis by (simp add: lang_Opt)
  next
    case False
    with sc obtain s where s: "sc = 0x28 # s @ [0x29]" "s \<noteq> []"
      "\<forall>c \<in> set s. \<not> is_line_terminator c" by blast
    have "s @ [0x29] \<in> lang (Seq (Plus Dot) (Chr 0x29))"
      by (rule lang_SeqI) (simp_all add: lang_Plus_Dot s)
    then have "[0x28] @ (s @ [0x29]) \<in> lang (Seq (Chr 0x28) (Seq (Plus Dot) (Chr 0x29)))"
      by (intro lang_SeqI) simp_all
    then show ?thesis
      by (simp add: lang_Opt s(1))
  qed
  have 3: "str '': '' @ [d] \<in> lang (Seq (Lit (str '': '')) (Plus Dot))"
    by (rule lang_SeqI) (simp_all add: lang_Lit lang_Plus_Dot d)
  have "t @ (sc @ (str '': '' @ [d])) \<in> lang conventionalPattern"
    unfolding conventionalPattern_def by (intro lang_SeqI 1 2 3)
  then show ?thesis by simp
qed

lemma conventional_shape:
  assumes "t \<in> set conventional_types"
    and "sc = [] \<or> (\<exists>s. sc = 0x28 # s @ [0x29] \<and> s \<noteq> [] \<and> (\<forall>c \<in> set s. \<not> is_line_terminator c))"
    and "\<not> is_line_terminator d"
  shows "isConventionalFormat (t @ sc @ str '': '' @ d # rest)"
proof -
  have "t @ sc @ str '': '' @ d # rest = (t @ sc @ str '': '' @ [d]) @ rest"
    by simp
  then show ?thesis
    unfolding isConventionalFormat_def regex_test_lang
    using conventional_shape_lang [OF assms] by blast
qed

section \<open>The message formatter\<close>

lemma format_conventional: "isConventionalFormat x \<Longrightarrow> formatCommitMessage st x a = x"
  by (simp add: formatCommitMessage_def)

text \<open>
  C8. A raw text that matches the pattern, that is, one that starts with a word of the
  pattern's language, is returned unchanged whatever the style and the analysis. The
  check is structural: after a type of the list, an optional parenthesised scope and
  \<^verbatim>\<open>: \<close>, one code unit that is not a line terminator is enough, and whatever follows
  (\<open>rest\<close>, of any length and content) is accepted.
\<close>

theorem conventional_message_unchanged:
  "((\<exists>p q. x = p @ q \<and> p \<in> lang conventionalPattern) \<longrightarrow> formatCommitMessage st x a = x) \<and>
   (t \<in> set conventional_types \<longrightarrow> \<not> is_line_terminator d \<longrightarrow>
      formatCommitMessage st (t @ str '': '' @ d # rest) a = t @ str '': '' @ d # rest) \<and>
   (t \<in> set conventional_types \<longrightarrow> \<not> is_line_terminator d \<longrightarrow>
    sc \<noteq> [] \<longrightarrow> (\<forall>c \<in> set sc. \<not> is_line_terminator c) \<longrightarrow>
      formatCommitMessage st (t @ (0x28 # sc @ [0x29]) @ str '': '' @ d # rest) a =
        t @ (0x28 # sc @ [0x29]) @ str '': '' @ d # rest)"
proof (intro conjI impI)
  assume "\<exists>p q. x = p @ q \<and> p \<in> lang conventionalPattern"
  then have "isConventionalFormat x"
    by (simp add: isConventionalFormat_def regex_test_lang)
  then show "formatCommitMessage st x a = x"
    by (rule format_conventional)
next
  assume "t \<in> set conventional_types" and "\<not> is_line_terminator d"
  then have "isConventionalFormat (t @ [] @ str '': '' @ d # rest)"
    by (intro conventional_shape) simp_all
  then show "formatCommitMessage st (t @ str '': '' @ d # rest) a = t @ str '': '' @ d # rest"
    using format_conventional by simp
next
  assume "t \<in> set conventional_types" and "\<not> is_line_terminator d" and "sc \<noteq> []"
    and "\<forall>c \<in> set sc. \<not> is_line_terminator c"
  then have "isConventionalFormat (t @ (0x28 # sc @ [0x29]) @ str '': '' @ d # rest)"
    by (intro conventional_shape) simp_all
  then show "formatCommitMessage st (t @ (0x28 # sc @ [0x29]) @ str '': '' @ d # rest) a =
      t @ (0x28 # sc @ [0x29]) @ str '': '' @ d # rest"
    by (rule format_conventional)
qed

theorem conventional_message_unchanged_witness:
  "formatCommitMessage (String (str ''free'')) (str ''feat(src): add x'') example_analysis =
     str ''feat(src): add x'' \<and>
   formatCommitMessage (String (str ''conventional'')) (str ''fix: y'') example_analysis =
     str ''fix: y''"
proof -
  have "regex_test conventionalPattern (str ''feat(src): add x'')"
    by code_simp
  then have m: "\<exists>p q. str ''feat(src): add x'' = p @ q \<and> p \<in> lang conventionalPattern"
    by (simp add: regex_test_lang)
  have t: "str ''fix'' \<in> set conventional_types"
    by (simp add: conventional_types_def)
  have d: "\<not> is_line_terminator 0x79"
    by (simp add: is_line_terminator_def)
  have e: "str ''fix'' @ str '': '' @ 0x79 # [] = str ''fix: y''"
    by (simp add: str_def)
  show ?thesis
    using conventional_message_unchanged [where x = "str ''feat(src): add x''"
        and st = "String (str ''free'')" and a = example_analysis and t = "str ''fix''"
        and d = "0x79" and rest = "[]"]
      conventional_message_unchanged [where st = "String (str ''conventional'')"
        and a = example_analysis and t = "str ''fix''" and d = "0x79" and rest = "[]"]
      m t d e
    by metis
qed

text \<open>
  C3, as amended. Formatting twice is formatting once when the style is not
  \<^verbatim>\<open>conventional\<close>, and also when the raw text starts with a code unit that is not a
  line terminator, the analysis type is one of the seven tags and the scope holds no
  line terminator.
\<close>

theorem format_idempotent:
  assumes "st \<noteq> String (str ''conventional'') \<or>
      ((\<exists>d rest. x = d # rest \<and> \<not> is_line_terminator d) \<and>
       type a \<in> set conventional_types \<and>
       (\<forall>c \<in> set (scope a). \<not> is_line_terminator c))"
  shows "formatCommitMessage st (formatCommitMessage st x a) a = formatCommitMessage st x a"
proof (cases "isConventionalFormat x \<or> st \<noteq> String (str ''conventional'')")
  case True
  then show ?thesis
    by (auto simp: formatCommitMessage_def)
next
  case False
  with assms obtain d rest where x: "x = d # rest" "\<not> is_line_terminator d"
    and ty: "type a \<in> set conventional_types"
    and sc: "\<forall>c \<in> set (scope a). \<not> is_line_terminator c"
    by blast
  define part where "part = (if scope a \<noteq> [] then str ''('' @ scope a @ str '')'' else [])"
  have y: "formatCommitMessage st x a = type a @ part @ str '': '' @ d # rest"
    using False by (simp add: formatCommitMessage_def part_def x(1))
  have "part = [] \<or> (\<exists>s. part = 0x28 # s @ [0x29] \<and> s \<noteq> [] \<and>
      (\<forall>c \<in> set s. \<not> is_line_terminator c))"
    using sc by (auto simp: part_def str_def)
  then have "isConventionalFormat (type a @ part @ str '': '' @ d # rest)"
    using ty x(2) by (intro conventional_shape)
  then show ?thesis
    by (simp add: y format_conventional)
qed

theorem format_idempotent_witness:
  "formatCommitMessage (String (str ''conventional'')) (str ''add x'') example_analysis =
     str ''test(src): add x'' \<and>
   formatCommitMessage (String (str ''conventional'')) (str ''test(src): add x'') example_analysis =
     str ''test(src): add x''"
proof -
  have f: "formatCommitMessage (String (str ''conventional'')) (str ''add x'') example_analysis =
      str ''test(src): add x''"
    by code_simp
  have h: "(\<exists>d rest. str ''add x'' = d # rest \<and> \<not> is_line_terminator d) \<and>
      type example_analysis \<in> set conventional_types \<and>
      (\<forall>c \<in> set (scope example_analysis). \<not> is_line_terminator c)"
    by (simp add: str_def example_analysis_def conventional_types_def is_line_terminator_def)
  have "formatCommitMessage (String (str ''conventional''))
      (formatCommitMessage (String (str ''conventional'')) (str ''add x'') example_analysis)
      example_analysis =
    formatCommitMessage (String (str ''conventional'')) (str ''add x'') example_analysis"
    using h by (intro format_idempotent) blast
  then show ?thesis
    by (simp only: f)
qed

text \<open>
  C3 as stated fails on the empty text: with the conventional style it becomes
  \<^verbatim>\<open>feat: \<close>, which the pattern rejects (nothing follows the colon and space), so a
  second pass prefixes it again.
\<close>

theorem format_not_idempotent_counterexample:
  "formatCommitMessage (String (str ''conventional'')) [] untracked_analysis = str ''feat: '' \<and>
   formatCommitMessage (String (str ''conventional'')) (str ''feat: '') untracked_analysis =
     str ''feat: feat: '' \<and>
   formatCommitMessage (String (str ''conventional''))
     (formatCommitMessage (String (str ''conventional'')) [] untracked_analysis) untracked_analysis \<noteq>
   formatCommitMessage (String (str ''conventional'')) [] untracked_analysis"
  by code_simp

section \<open>Multi-candidate generation\<close>

lemma promise_all_rejects: "\<exists>p \<in> set ps. isl p \<Longrightarrow> isl (promise_all ps)"
  by (induction ps rule: promise_all.induct) (auto split: sum.splits)

lemma promise_all_resolves: "promise_all (map Inr xs) = Inr xs"
  by (induction xs) auto

lemma foldl_set_add_distinct: "distinct (acc @ xs) \<Longrightarrow> foldl set_add acc xs = acc @ xs"
proof (induction xs arbitrary: acc)
  case Nil
  then show ?case by simp
next
  case (Cons x xs)
  then have "foldl set_add (acc @ [x]) xs = (acc @ [x]) @ xs"
    by (intro Cons.IH) simp
  moreover have "set_add acc x = acc @ [x]"
    using Cons.prems by (simp add: set_add_def)
  ultimately show ?case
    by simp
qed

lemma new_Set_distinct: "distinct xs \<Longrightarrow> new_Set xs = xs"
  using foldl_set_add_distinct [of "[]" xs] by (simp add: new_Set_def)

lemma new_Set_constant:
  assumes "xs \<noteq> []" and "\<forall>y \<in> set xs. y = x"
  shows "new_Set xs = [x]"
proof -
  have s: "set (new_Set xs) = {x}"
    using assms by (cases xs) (auto simp: set_new_Set)
  have "length (new_Set xs) = card (set (new_Set xs))"
    by (simp add: distinct_card distinct_new_Set)
  then have "length (new_Set xs) = 1"
    by (simp add: s)
  then obtain y where "new_Set xs = [y]"
    by (cases "new_Set xs") auto
  with s show ?thesis by simp
qed

text \<open>Both branches of \<^verbatim>\<open>generateMultipleOptions\<close> join \<open>count\<close> calls of the same
  \<^verbatim>\<open>generateCommitMessage\<close>.\<close>

lemma generateMultipleOptions_calls:
  assumes "gen = setupGenerator ev cfg"
  shows "AICommitGenerator_generateMultipleOptions gen b a count =
     (case promise_all (map (\<lambda>i. AICommitGenerator_generateCommitMessage gen b i a) [0..<count]) of
        Inl e \<Rightarrow> Inl (MultipleFailed e)
      | Inr results \<Rightarrow> Inr (new_Set results))"
  by (simp add: assms AICommitGenerator_generateMultipleOptions_def
      AICommitGenerator_generateCommitMessage_def DashScopeGenerator_generateMultipleOptions_def
      setupGenerator_def)

lemma generateCommitMessage_reads_reply:
  assumes "generator_request gen = Some r" and "b r i = b r j"
  shows "AICommitGenerator_generateCommitMessage gen b i a =
         AICommitGenerator_generateCommitMessage gen b j a"
  using assms
  by (auto simp: AICommitGenerator_generateCommitMessage_def generator_request_def
      DashScopeGenerator_generateCommitMessage_def generateWithOpenAI_def
      split: option.splits if_splits)

text \<open>
  C9, as amended. For a generator set up from a configuration (either provider) and
  \<open>count\<close> calls: if one call fails, the operation fails with that failure wrapped, and
  returns no list; if all calls succeed with pairwise distinct formatted messages, it
  returns all of them, in call order; if the backend gives the same response to every
  call and the call succeeds, it returns that one message. Duplicates collapse on the
  formatted message, not on the backend's response.
\<close>

theorem generateMultipleOptions_dedup:
  assumes "gen = setupGenerator ev cfg"
  shows "((\<exists>i < count. isl (AICommitGenerator_generateCommitMessage gen b i a)) \<longrightarrow>
            (\<exists>e. AICommitGenerator_generateMultipleOptions gen b a count = Inl (MultipleFailed e))) \<and>
         ((\<forall>i < count. AICommitGenerator_generateCommitMessage gen b i a = Inr (m i)) \<longrightarrow>
          inj_on m {..<count} \<longrightarrow>
            AICommitGenerator_generateMultipleOptions gen b a count = Inr (map m [0..<count])) \<and>
         (0 < count \<longrightarrow> generator_request gen = Some r \<longrightarrow> (\<forall>i < count. b r i = b r 0) \<longrightarrow>
          AICommitGenerator_generateCommitMessage gen b 0 a = Inr m0 \<longrightarrow>
            AICommitGenerator_generateMultipleOptions gen b a count = Inr [m0])"
proof (intro conjI impI)
  let ?call = "\<lambda>i. AICommitGenerator_generateCommitMessage gen b i a"
  note multi = generateMultipleOptions_calls [OF assms, of b a count]
  {
    assume "\<exists>i < count. isl (?call i)"
    then have "\<exists>p \<in> set (map ?call [0..<count]). isl p"
      by auto
    then have "isl (promise_all (map ?call [0..<count]))"
      by (rule promise_all_rejects)
    then show "\<exists>e. AICommitGenerator_generateMultipleOptions gen b a count = Inl (MultipleFailed e)"
      by (auto simp: multi isl_def)
  }
  {
    assume ok: "\<forall>i < count. ?call i = Inr (m i)" and inj: "inj_on m {..<count}"
    have calls: "map ?call [0..<count] = map Inr (map m [0..<count])"
      using ok by simp
    have "distinct (map m [0..<count])"
      using inj by (simp add: distinct_map atLeast_upt)
    then have "new_Set (map m [0..<count]) = map m [0..<count]"
      by (rule new_Set_distinct)
    then show "AICommitGenerator_generateMultipleOptions gen b a count = Inr (map m [0..<count])"
      unfolding multi calls promise_all_resolves by simp
  }
  {
    assume pos: "0 < count" and r: "generator_request gen = Some r"
      and same: "\<forall>i < count. b r i = b r 0" and m0: "?call 0 = Inr m0"
    have "\<forall>i < count. ?call i = Inr m0"
      using generateCommitMessage_reads_reply [OF r] same m0 by metis
    then have calls: "map ?call [0..<count] = map Inr (map (\<lambda>i. m0) [0..<count])"
      by simp
    have "new_Set (map (\<lambda>i. m0) [0..<count]) = [m0]"
      using pos by (intro new_Set_constant) auto
    then show "AICommitGenerator_generateMultipleOptions gen b a count = Inr [m0]"
      unfolding multi calls promise_all_resolves by simp
  }
qed

theorem generateMultipleOptions_dedup_witness:
  "AICommitGenerator_generateMultipleOptions
      (setupGenerator no_env (zero_config (String (str ''openai''))))
      distinct_replies untracked_analysis 3 =
     Inr [str ''feat: add x'', str ''feat: add y'', str ''feat: add z''] \<and>
   AICommitGenerator_generateMultipleOptions
      (setupGenerator no_env (zero_config (String (str ''dashscope''))))
      same_reply untracked_analysis 3 =
     Inr [str ''feat: add x''] \<and>
   isl (AICommitGenerator_generateMultipleOptions
      (setupGenerator no_env (zero_config (String (str ''openai''))))
      failing_second untracked_analysis 3)"
proof -
  let ?o = "setupGenerator no_env (zero_config (String (str ''openai'')))"
  let ?d = "setupGenerator no_env (zero_config (String (str ''dashscope'')))"
  let ?a = untracked_analysis
  let ?m = "\<lambda>i::nat. if i = 0 then str ''feat: add x'' else if i = 1 then str ''feat: add y''
      else str ''feat: add z''"
  have three: "i = 0 \<or> i = 1 \<or> i = 2" if "i < 3" for i :: nat
    using that by arith
  have c: "AICommitGenerator_generateCommitMessage ?o distinct_replies 0 ?a = Inr (str ''feat: add x'')"
    "AICommitGenerator_generateCommitMessage ?o distinct_replies 1 ?a = Inr (str ''feat: add y'')"
    "AICommitGenerator_generateCommitMessage ?o distinct_replies 2 ?a = Inr (str ''feat: add z'')"
    by (code_simp, code_simp, code_simp)
  have calls: "\<forall>i < 3. AICommitGenerator_generateCommitMessage ?o distinct_replies i ?a = Inr (?m i)"
    using three c by auto
  have ne: "str ''feat: add x'' \<noteq> str ''feat: add y''" "str ''feat: add x'' \<noteq> str ''feat: add z''"
    "str ''feat: add y'' \<noteq> str ''feat: add z''"
    by (simp_all add: str_def)
  have inj: "inj_on ?m {..<3}"
    using ne by (auto simp: inj_on_def dest!: three split: if_splits)
  have ms: "map ?m [0..<3] = [str ''feat: add x'', str ''feat: add y'', str ''feat: add z'']"
    by code_simp
  have 1: "AICommitGenerator_generateMultipleOptions ?o distinct_replies ?a 3 =
      Inr [str ''feat: add x'', str ''feat: add y'', str ''feat: add z'']"
    using generateMultipleOptions_dedup [where gen = ?o and ev = no_env
        and cfg = "zero_config (String (str ''openai''))" and count = 3
        and b = distinct_replies and a = ?a and m = ?m
        and r = "openai_request (zero_config (String (str ''openai'')))"
        and ?m0.0 = "[]", OF refl] calls inj
    unfolding ms by blast
  obtain r where r: "generator_request ?d = Some r"
    by (simp add: generator_request_setup)
  have pos: "(0::nat) < 3"
    by simp
  have same: "\<forall>i < 3. same_reply r i = same_reply r 0"
    by (simp add: same_reply_def)
  have first: "AICommitGenerator_generateCommitMessage ?d same_reply 0 ?a = Inr (str ''feat: add x'')"
    by code_simp
  have 2: "AICommitGenerator_generateMultipleOptions ?d same_reply ?a 3 = Inr [str ''feat: add x'']"
    using generateMultipleOptions_dedup [where gen = ?d and ev = no_env
        and cfg = "zero_config (String (str ''dashscope''))" and count = 3
        and b = same_reply and a = ?a and r = r and ?m0.0 = "str ''feat: add x''"
        and m = ?m, OF refl] r same first pos
    by blast
  have "isl (AICommitGenerator_generateCommitMessage ?o failing_second 1 ?a)"
    by code_simp
  then have "\<exists>i < 3. isl (AICommitGenerator_generateCommitMessage ?o failing_second i ?a)"
    by (intro exI [of _ 1]) simp
  then obtain e where
    "AICommitGenerator_generateMultipleOptions ?o failing_second ?a 3 = Inl (MultipleFailed e)"
    using generateMultipleOptions_dedup [where gen = ?o and ev = no_env
        and cfg = "zero_config (String (str ''openai''))" and count = 3
        and b = failing_second and a = ?a and m = ?m and r = r
        and ?m0.0 = "[]", OF refl]
    by blast
  then have 3: "isl (AICommitGenerator_generateMultipleOptions ?o failing_second ?a 3)"
    by simp
  from 1 2 3 show ?thesis by blast
qed

text \<open>
  C9 as stated fails: three pairwise different responses, which differ in leading white
  space or already carry the prefix that the formatter adds, give one candidate.
\<close>

theorem distinct_responses_collapse_counterexample:
  "collapsing_replies (openai_request (zero_config (String (str ''openai'')))) 0 \<noteq>
     collapsing_replies (openai_request (zero_config (String (str ''openai'')))) 1 \<and>
   collapsing_replies (openai_request (zero_config (String (str ''openai'')))) 0 \<noteq>
     collapsing_replies (openai_request (zero_config (String (str ''openai'')))) 2 \<and>
   collapsing_replies (openai_request (zero_config (String (str ''openai'')))) 1 \<noteq>
     collapsing_replies (openai_request (zero_config (String (str ''openai'')))) 2 \<and>
   AICommitGenerator_generateMultipleOptions
      (setupGenerator no_env (zero_config (String (str ''openai''))))
      collapsing_replies untracked_analysis 3 =
     Inr [str ''feat: add x'']"
  by code_simp

section \<open>The single-message operation\<close>






section \<open>Scope inference\<close>

lemma new_Set_snoc: "new_Set (xs @ [x]) = set_add (new_Set xs) x"
  by (simp add: new_Set_def)

lemma map_of_graph:
  "map_of (map (\<lambda>s. (s, f s)) ks) k = (if k \<in> set ks then Some (f k) else None)"
  by (induction ks) auto

lemma update_graph_present:
  "k \<in> set ks \<Longrightarrow> distinct ks \<Longrightarrow>
   AList.update k v (map (\<lambda>s. (s, f s)) ks) = map (\<lambda>s. (s, (f(k := v)) s)) ks"
  by (induction ks) (auto simp: AList.update.simps)

lemma update_graph_absent:
  "k \<notin> set ks \<Longrightarrow>
   AList.update k v (map (\<lambda>s. (s, f s)) ks) = map (\<lambda>s. (s, (f(k := v)) s)) (ks @ [k])"
  by (induction ks) (auto simp: AList.update.simps)

lemma tally_step:
  assumes m: "m = map (\<lambda>s. (s, count_list seen s)) (new_Set seen)" and s: "s \<noteq> []"
  shows "tally m s = map (\<lambda>k. (k, count_list (seen @ [s]) k)) (new_Set (seen @ [s]))"
proof -
  have cnt: "(count_list seen)(s := count_list seen s + 1) = count_list (seen @ [s])"
    by (auto simp: fun_eq_iff)
  show ?thesis
  proof (cases "s \<in> set seen")
    case True
    then have "tally m s = map (\<lambda>k. (k, ((count_list seen)(s := count_list seen s + 1)) k)) (new_Set seen)"
      using s by (simp add: tally_def m map_of_graph set_new_Set distinct_new_Set update_graph_present)
    then show ?thesis
      using True by (simp add: cnt new_Set_snoc set_add_def set_new_Set)
  next
    case False
    then have "count_list seen s = 0"
      by (simp add: count_list_0_iff)
    then have "tally m s =
        map (\<lambda>k. (k, ((count_list seen)(s := count_list seen s + 1)) k)) (new_Set seen @ [s])"
      using s False by (simp add: tally_def m map_of_graph set_new_Set update_graph_absent)
    then show ?thesis
      using False by (simp only: cnt new_Set_snoc set_add_def set_new_Set if_False)
  qed
qed

text \<open>The tally: one entry for each distinct non-empty first segment, in the order of
  first occurrence, with its number of occurrences.\<close>

lemma scopeCounts_counts:
  "scopeCounts paths =
     map (\<lambda>s. (s, count_list (filter (\<lambda>s. s \<noteq> []) paths) s))
       (new_Set (filter (\<lambda>s. s \<noteq> []) paths))"
proof (induction paths rule: rev_induct)
  case Nil
  then show ?case by (simp add: scopeCounts_def new_Set_def)
next
  case (snoc x xs)
  show ?case
  proof (cases "x = []")
    case True
    with snoc show ?thesis by (simp add: scopeCounts_def tally_def)
  next
    case False
    have "scopeCounts (xs @ [x]) = tally (scopeCounts xs) x"
      by (simp add: scopeCounts_def)
    also have "\<dots> = map (\<lambda>k. (k, count_list (filter (\<lambda>s. s \<noteq> []) xs @ [x]) k))
        (new_Set (filter (\<lambda>s. s \<noteq> []) xs @ [x]))"
      using snoc False by (rule tally_step)
    finally show ?thesis
      using False by simp
  qed
qed

lemma set_object_keys: "set (object_keys m) = fst ` set m"
  by (auto simp: object_keys_def Let_def)

text \<open>The reduction keeps the last key among those with the greatest count.\<close>

lemma foldl_pick_last_max:
  assumes "\<forall>s \<in> set (k # ks). map_of m s = Some (cnt s)"
  shows "\<exists>pre post. k # ks = pre @ foldl (pick m) k ks # post \<and>
     (\<forall>s \<in> set pre. cnt s \<le> cnt (foldl (pick m) k ks)) \<and>
     (\<forall>s \<in> set post. cnt s < cnt (foldl (pick m) k ks))"
  using assms
proof (induction ks rule: rev_induct)
  case Nil
  show ?case
    by (intro exI [of _ "[]"]) simp
next
  case (snoc x xs)
  let ?r = "foldl (pick m) k xs"
  from snoc obtain pre post where dec: "k # xs = pre @ ?r # post"
    and pre: "\<forall>s \<in> set pre. cnt s \<le> cnt ?r" and post: "\<forall>s \<in> set post. cnt s < cnt ?r"
    by auto
  have "?r \<in> set (k # xs)"
    by (subst dec) simp
  then have r: "map_of m ?r = Some (cnt ?r)" and x: "map_of m x = Some (cnt x)"
    using snoc.prems by auto
  show ?case
  proof (cases "cnt ?r > cnt x")
    case True
    then have res: "foldl (pick m) k (xs @ [x]) = ?r"
      by (simp add: pick_def r x)
    have "k # xs @ [x] = pre @ ?r # (post @ [x])"
      using dec by simp
    moreover have "\<forall>s \<in> set (post @ [x]). cnt s < cnt ?r"
      using post True by simp
    ultimately show ?thesis
      unfolding res using pre by blast
  next
    case False
    then have res: "foldl (pick m) k (xs @ [x]) = x"
      by (simp add: pick_def r x)
    have le: "cnt ?r \<le> cnt x"
      using False by simp
    have "cnt s \<le> cnt x" if "s \<in> set (pre @ ?r # post)" for s
    proof -
      from that have "cnt s \<le> cnt ?r"
        using pre post by (auto simp: less_imp_le)
      with le show ?thesis by simp
    qed
    then have "\<forall>s \<in> set (k # xs). cnt s \<le> cnt x"
      unfolding dec by blast
    moreover have "k # xs @ [x] = (k # xs) @ x # []"
      by simp
    ultimately show ?thesis
      unfolding res by (metis empty_iff empty_set)
  qed
qed

lemma scope_analyze: "scope (analyze c d) = change_scope (files (analyze c d))"
  by (simp add: analyze_def Let_def)

text \<open>
  C1, as amended. Let \<open>cands\<close> be the non-empty first segments of the changed paths that
  contain a separator, none of them a name of \<^verbatim>\<open>Object.prototype\<close>. The tally has one entry
  per distinct candidate, in order of first occurrence, with its number of occurrences.
  \<open>keys\<close> is the order in which \<^verbatim>\<open>Object.keys\<close> lists them: that order, except that
  array-index names come first, ascending. With no candidate the scope is empty.
  Otherwise the scope is a most frequent candidate, and among equally frequent ones the
  last in \<open>keys\<close>: no key before it is more frequent, every key after it is less frequent.
\<close>

theorem scope_most_frequent_last:
  assumes "a = analyze c d"
    and "cands = filter (\<lambda>s. s \<noteq> []) (map first_segment (files a))"
    and "\<forall>s \<in> set cands. s \<notin> set object_prototype_keys"
    and "keys = object_keys (map (\<lambda>s. (s, count_list cands s)) (new_Set cands))"
  shows "scopeCounts (map first_segment (files a)) =
           map (\<lambda>s. (s, count_list cands s)) (new_Set cands) \<and>
         set keys = set cands \<and>
         ((\<forall>s \<in> set cands. \<not> is_array_index s) \<longrightarrow> keys = new_Set cands) \<and>
         (cands = [] \<longrightarrow> scope a = []) \<and>
         (cands \<noteq> [] \<longrightarrow>
            (\<exists>pre post. keys = pre @ scope a # post \<and>
               (\<forall>s \<in> set pre. count_list cands s \<le> count_list cands (scope a)) \<and>
               (\<forall>s \<in> set post. count_list cands s < count_list cands (scope a))))"
proof -
  let ?m = "map (\<lambda>s. (s, count_list cands s)) (new_Set cands)"
  have m: "scopeCounts (map first_segment (files a)) = ?m"
    by (simp add: scopeCounts_counts assms(2))
  have keys: "set keys = set cands"
    by (simp add: assms(4) set_object_keys set_new_Set image_image)
  have plain: "keys = new_Set cands" if "\<forall>s \<in> set cands. \<not> is_array_index s"
  proof -
    have "filter is_array_index (new_Set cands) = []"
      and "filter (\<lambda>k. \<not> is_array_index k) (new_Set cands) = new_Set cands"
      using that by (simp_all add: filter_empty_conv filter_id_conv set_new_Set)
    then show ?thesis
      by (simp add: assms(4) object_keys_def Let_def comp_def)
  qed
  have sc: "scope a = (case keys of [] \<Rightarrow> [] | k # ks \<Rightarrow> foldl (pick ?m) k ks)"
    by (simp add: assms(1) scope_analyze change_scope_def Let_def m [unfolded assms(1)]
        assms(4) [unfolded assms(1)])
  have empty: "scope a = []" if "cands = []"
  proof -
    from that keys have "keys = []" by simp
    then show ?thesis by (simp add: sc)
  qed
  have last: "\<exists>pre post. keys = pre @ scope a # post \<and>
      (\<forall>s \<in> set pre. count_list cands s \<le> count_list cands (scope a)) \<and>
      (\<forall>s \<in> set post. count_list cands s < count_list cands (scope a))" if "cands \<noteq> []"
  proof -
    from that keys obtain k ks where k: "keys = k # ks"
      by (cases keys) auto
    have "\<forall>s \<in> set (k # ks). map_of ?m s = Some (count_list cands s)"
      using keys by (simp add: k [symmetric] map_of_graph set_new_Set)
    from foldl_pick_last_max [OF this] show ?thesis
      by (simp add: sc k)
  qed
  from m keys plain empty last show ?thesis
    by blast
qed

text \<open>
  Two instances: \<^verbatim>\<open>api/x.js\<close> and \<^verbatim>\<open>web/y.js\<close> tie and the later key wins; \<^verbatim>\<open>2/x.js\<close> and
  \<^verbatim>\<open>1/y.js\<close> tie as well, and the keys are listed as \<^verbatim>\<open>1\<close>, \<^verbatim>\<open>2\<close>, so that \<^verbatim>\<open>2\<close> wins.
\<close>

theorem scope_most_frequent_last_witness:
  "scope (analyze two_dirs []) = str ''web'' \<and> scope (analyze numbered_dirs []) = str ''2''"
proof -
  let ?cands = "[str ''api'', str ''web'']"
  have c: "filter (\<lambda>s. s \<noteq> []) (map first_segment (files (analyze two_dirs []))) = ?cands"
    by code_simp
  have p: "\<forall>s \<in> set ?cands. s \<notin> set object_prototype_keys"
    by code_simp
  have k: "object_keys (map (\<lambda>s. (s, count_list ?cands s)) (new_Set ?cands)) = ?cands"
    by code_simp
  have n: "count_list ?cands (str ''api'') = 1" "count_list ?cands (str ''web'') = 1"
    by (simp_all add: str_def)
  from scope_most_frequent_last [OF refl c [symmetric] p k [symmetric]]
  obtain pre post where dec: "?cands = pre @ scope (analyze two_dirs []) # post"
    and post: "\<forall>s \<in> set post. count_list ?cands s < count_list ?cands (scope (analyze two_dirs []))"
    by blast
  have two: "scope (analyze two_dirs []) = str ''web''"
  proof (cases pre)
    case Nil
    with dec have "scope (analyze two_dirs []) = str ''api''" and "post = [str ''web'']"
      by simp_all
    with post n show ?thesis by simp
  next
    case (Cons x pre')
    with dec show ?thesis
      by (cases pre') simp_all
  qed
  have "scope (analyze numbered_dirs []) = str ''2''"
    by code_simp
  with two show ?thesis by blast
qed

text \<open>
  C1 as stated fails on a tie: with one file under \<^verbatim>\<open>api/\<close> and one under \<^verbatim>\<open>web/\<close> the
  scope is \<^verbatim>\<open>web\<close>, the last candidate, where the first encountered is \<^verbatim>\<open>api\<close>.
\<close>

theorem scope_tie_counterexample:
  "files (analyze two_dirs []) = [str ''api/x.js'', str ''web/y.js''] \<and>
   scope (analyze two_dirs []) = str ''web'' \<and>
   claimed_scope (files (analyze two_dirs [])) = str ''api''"
  by code_simp

end
